theory Spec2Isabelle
  imports Main "HOL-Library.Multiset" "HOL-Library.AList"
begin

section \<open>Content entries\<close>

text \<open>
  The entries that \<open>getCollection\<close> hands to the aggregation layer
  (\<open>src/utils/data.ts\<close>), shaped by the collection schemas of the content
  configuration. A date is the millisecond time value of a valid JavaScript
  \<open>Date\<close>; an optional field that may be \<open>undefined\<close> is an option.
\<close>

record reference =
  collection :: string
  ref_id :: string

record blog_data =
  title :: string
  description :: string
  pubDate :: int
  updatedDate :: "int option"
  isDraft :: bool
  heroImage :: "string option"
  category :: reference
  tags :: "string list option"

record blog_entry =
  blog_id :: string
  blog_data :: blog_data

record category_data =
  slug :: string
  name :: string

record category_entry =
  cat_id :: string
  cat_data :: category_data

section \<open>The lodash call \<open>_.orderBy(collection, [iteratee], [order])\<close>\<close>

text \<open>
  \<open>_.orderBy\<close> is the lodash library function, not code of the repository.
  It is modelled after lodash's implementation for the one iteratee and the
  one order that \<open>getPublishedBlogs\<close> passes: \<open>baseOrderBy\<close> pairs every
  element with its criterion and its position (\<open>criteria\<close>, \<open>index\<close>,
  \<open>value\<close>), \<open>baseSortBy\<close> sorts these with \<open>compareMultiple\<close> and keeps
  the values. \<open>compareMultiple\<close> compares the criteria with
  \<open>compareAscending\<close>, negates the result for the order \<open>desc\<close>, and falls
  back to the difference of the positions when the criteria are equal.
\<close>

datatype sort_order = Asc | Desc

record 'a sort_item =
  criteria :: int
  index :: nat
  item_value :: 'a

definition compareAscending :: "int \<Rightarrow> int \<Rightarrow> int" where
  "compareAscending v other = (if v > other then 1 else if v < other then - 1 else 0)"

definition compareMultiple :: "sort_order \<Rightarrow> 'a sort_item \<Rightarrow> 'a sort_item \<Rightarrow> int" where
  "compareMultiple ord object other =
     (let result = compareAscending (criteria object) (criteria other)
      in if result \<noteq> 0 then result * (if ord = Desc then - 1 else 1)
         else int (index object) - int (index other))"

text \<open>
  \<open>Array.prototype.sort(comparer)\<close>, as an insertion sort: an element goes in
  front of the first element it does not compare greater than.
\<close>

fun insert_by :: "('a \<Rightarrow> 'a \<Rightarrow> int) \<Rightarrow> 'a \<Rightarrow> 'a list \<Rightarrow> 'a list" where
  "insert_by cmp x [] = [x]"
| "insert_by cmp x (y # ys) = (if cmp x y \<le> 0 then x # y # ys else y # insert_by cmp x ys)"

definition array_sort :: "('a \<Rightarrow> 'a \<Rightarrow> int) \<Rightarrow> 'a list \<Rightarrow> 'a list" where
  "array_sort cmp xs = foldr (insert_by cmp) xs []"

fun sort_items :: "('a \<Rightarrow> int) \<Rightarrow> nat \<Rightarrow> 'a list \<Rightarrow> 'a sort_item list" where
  "sort_items iteratee i [] = []"
| "sort_items iteratee i (x # xs) =
     \<lparr>criteria = iteratee x, index = i, item_value = x\<rparr> # sort_items iteratee (Suc i) xs"

definition orderBy :: "'a list \<Rightarrow> ('a \<Rightarrow> int) \<Rightarrow> sort_order \<Rightarrow> 'a list" where
  "orderBy xs iteratee ord =
     map item_value (array_sort (compareMultiple ord) (sort_items iteratee 0 xs))"

section \<open>The published posts\<close>

text \<open>
  \<open>getPublishedBlogs\<close>: the entries of the \<open>blog\<close> collection that are not
  drafts, ordered by \<open>pubDate\<close>, descending. The collection is the argument.
\<close>

definition getPublishedBlogs :: "blog_entry list \<Rightarrow> blog_entry list" where
  "getPublishedBlogs blogs =
     orderBy (filter (\<lambda>blog. \<not> isDraft (blog_data blog)) blogs)
       (\<lambda>blog. pubDate (blog_data blog)) Desc"

section \<open>Posts by category\<close>

text \<open>
  \<open>getCategoriesWithBlogs\<close>: one \<open>{category, blogs}\<close> object for every entry
  of the \<open>category\<close> collection, holding the published posts whose category
  reference has the entry's id. Both collections are arguments.
\<close>

record category_with_blogs =
  cwb_category :: category_entry
  cwb_blogs :: "blog_entry list"

definition getCategoriesWithBlogs ::
  "blog_entry list \<Rightarrow> category_entry list \<Rightarrow> category_with_blogs list" where
  "getCategoriesWithBlogs blogCollection categories =
     (let blogs = getPublishedBlogs blogCollection
      in map (\<lambda>cat.
            \<lparr>cwb_category = cat,
             cwb_blogs = filter (\<lambda>blog. ref_id (category (blog_data blog)) = cat_id cat) blogs\<rparr>)
           categories)"

text \<open>The configured categories (\<open>src/consts.ts\<close>), as the category loader serves them.\<close>

definition BLOG_CATEGORIES :: "category_entry list" where
  "BLOG_CATEGORIES =
     [\<lparr>cat_id = ''tech'', cat_data = \<lparr>slug = ''tech'', name = ''Tech''\<rparr>\<rparr>,
      \<lparr>cat_id = ''scratch'', cat_data = \<lparr>slug = ''scratch'', name = ''Scratch''\<rparr>\<rparr>,
      \<lparr>cat_id = ''design'', cat_data = \<lparr>slug = ''design'', name = ''Design''\<rparr>\<rparr>]"

section \<open>Posts by tag\<close>

text \<open>
  \<open>tagMap\<close> is a plain JavaScript object, created by \<open>{}\<close> and used as a
  dictionary. Its own properties are kept in creation order. Reading a
  property that the object does not own falls through to \<open>Object.prototype\<close>,
  whose properties are functions (and, for \<open>__proto__\<close>, the prototype
  object): truthy values without a \<open>push\<close> method.
\<close>

type_synonym tag_map = "(string \<times> blog_entry list) list"

datatype js_error = TypeError

datatype 'v property = Own 'v | Inherited | Undefined

definition Object_prototype_keys :: "string list" where
  "Object_prototype_keys =
     [''constructor'', ''__defineGetter__'', ''__defineSetter__'', ''hasOwnProperty'',
      ''__lookupGetter__'', ''__lookupSetter__'', ''isPrototypeOf'', ''propertyIsEnumerable'',
      ''toString'', ''valueOf'', ''__proto__'', ''toLocaleString'']"

definition get_property :: "(string \<times> 'v) list \<Rightarrow> string \<Rightarrow> 'v property" where
  "get_property obj key =
     (case map_of obj key of
        Some v \<Rightarrow> Own v
      | None \<Rightarrow> if key \<in> set Object_prototype_keys then Inherited else Undefined)"

fun truthy :: "'v property \<Rightarrow> bool" where
  "truthy (Own v) = True"
| "truthy Inherited = True"
| "truthy Undefined = False"

text \<open>
  The body of the inner \<open>forEach\<close>:
  \<^verbatim>\<open>if (!tagMap[tag]) { tagMap[tag] = []; }  tagMap[tag].push(blog);\<close>
  An assignment to a missing key appends the property, an assignment to an
  own key replaces its value in place (\<open>AList.update\<close> does both). The
  \<open>push\<close> on a value that is not an array throws.
\<close>

definition add_blog_to_tag :: "blog_entry \<Rightarrow> string \<Rightarrow> tag_map \<Rightarrow> js_error + tag_map" where
  "add_blog_to_tag blog tag_name tagMap =
     (let tagMap' = (if \<not> truthy (get_property tagMap tag_name)
                     then AList.update tag_name [] tagMap else tagMap)
      in case get_property tagMap' tag_name of
           Own bucket \<Rightarrow> Inr (AList.update tag_name (bucket @ [blog]) tagMap')
         | _ \<Rightarrow> Inl TypeError)"

text \<open>\<open>blog.data.tags ?? []\<close>\<close>

definition tags_of :: "blog_entry \<Rightarrow> string list" where
  "tags_of blog = (case tags (blog_data blog) of None \<Rightarrow> [] | Some ts \<Rightarrow> ts)"

fun forEach_tag :: "blog_entry \<Rightarrow> string list \<Rightarrow> tag_map \<Rightarrow> js_error + tag_map" where
  "forEach_tag blog [] tagMap = Inr tagMap"
| "forEach_tag blog (tag_name # rest) tagMap =
     (case add_blog_to_tag blog tag_name tagMap of
        Inl e \<Rightarrow> Inl e
      | Inr tagMap' \<Rightarrow> forEach_tag blog rest tagMap')"

fun forEach_blog :: "blog_entry list \<Rightarrow> tag_map \<Rightarrow> js_error + tag_map" where
  "forEach_blog [] tagMap = Inr tagMap"
| "forEach_blog (blog # rest) tagMap =
     (case forEach_tag blog (tags_of blog) tagMap of
        Inl e \<Rightarrow> Inl e
      | Inr tagMap' \<Rightarrow> forEach_blog rest tagMap')"

text \<open>
  \<open>Object.entries\<close> lists the own properties: first the keys that are array
  indices (canonical decimal numerals below \<open>2^32 - 1\<close>) in ascending numeric
  order, then the other keys in creation order.
\<close>

definition is_digit :: "char \<Rightarrow> bool" where
  "is_digit c = (c \<in> set ''0123456789'')"

definition decimal_value :: "string \<Rightarrow> int" where
  "decimal_value s = foldl (\<lambda>n c. 10 * n + (of_char c - 48)) 0 s"

definition is_array_index :: "string \<Rightarrow> bool" where
  "is_array_index s =
     (s \<noteq> [] \<and> list_all is_digit s \<and> (hd s \<noteq> CHR ''0'' \<or> s = ''0'')
      \<and> decimal_value s < 4294967295)"

definition Object_entries :: "(string \<times> 'v) list \<Rightarrow> (string \<times> 'v) list" where
  "Object_entries obj =
     sort_key (\<lambda>p. decimal_value (fst p)) (filter (\<lambda>p. is_array_index (fst p)) obj)
     @ filter (\<lambda>p. \<not> is_array_index (fst p)) obj"

record tag_with_blogs =
  twb_tag :: string
  twb_blogs :: "blog_entry list"

definition getTagsWithBlogs :: "blog_entry list \<Rightarrow> js_error + tag_with_blogs list" where
  "getTagsWithBlogs blogCollection =
     (case forEach_blog (getPublishedBlogs blogCollection) [] of
        Inl e \<Rightarrow> Inl e
      | Inr tagMap \<Rightarrow>
          Inr (map (\<lambda>(tag_name, blogs). \<lparr>twb_tag = tag_name, twb_blogs = blogs\<rparr>)
                 (Object_entries tagMap)))"

text \<open>
  The walk of the two nested loops, as the list of its (tag, post) visits,
  and the order in which the distinct elements of a list first appear.
\<close>

definition tag_visits :: "blog_entry list \<Rightarrow> (string \<times> blog_entry) list" where
  "tag_visits blogs = concat (map (\<lambda>blog. map (\<lambda>tag_name. (tag_name, blog)) (tags_of blog)) blogs)"

fun first_appearance :: "'a list \<Rightarrow> 'a list" where
  "first_appearance [] = []"
| "first_appearance (x # xs) = x # first_appearance (filter (\<lambda>y. y \<noteq> x) xs)"

definition visits_of :: "string \<Rightarrow> (string \<times> blog_entry) list \<Rightarrow> blog_entry list" where
  "visits_of tag_name visits = map snd (filter (\<lambda>v. fst v = tag_name) visits)"

definition tag_buckets :: "(string \<times> blog_entry) list \<Rightarrow> tag_map" where
  "tag_buckets visits =
     map (\<lambda>tag_name. (tag_name, visits_of tag_name visits)) (first_appearance (map fst visits))"

text \<open>The two loops as one loop over the visits.\<close>

fun run_visits :: "(string \<times> blog_entry) list \<Rightarrow> tag_map \<Rightarrow> js_error + tag_map" where
  "run_visits [] tagMap = Inr tagMap"
| "run_visits (v # vs) tagMap =
     (case add_blog_to_tag (snd v) (fst v) tagMap of
        Inl e \<Rightarrow> Inl e
      | Inr tagMap' \<Rightarrow> run_visits vs tagMap')"

section \<open>The blog schema\<close>

text \<open>
  The frontmatter of a post, as the loader parses it, and the schema of the
  \<open>blog\<close> collection. The schema combinators are zod's and are modelled
  after zod: a schema maps an input to the parsed value or to the issues
  found, each with the path of the offending field; an object schema reads
  every key of its shape (a missing key reads as \<open>undefined\<close>) and gathers
  the issues of all of them.
\<close>

datatype raw =
    RUndefined
  | RNull
  | RBoolean bool
  | RNumber int
  | RString string
  | RDate int
  | RArray "raw list"
  | RObject "(string \<times> raw) list"

datatype path_elem = Key string | Idx nat

datatype issue = Issue "path_elem list" string

type_synonym 'a parsed = "issue list + 'a"

type_synonym 'a schema = "path_elem list \<Rightarrow> raw \<Rightarrow> 'a parsed"

fun ap :: "('a \<Rightarrow> 'b) parsed \<Rightarrow> 'a parsed \<Rightarrow> 'b parsed" where
  "ap (Inr f) (Inr x) = Inr (f x)"
| "ap (Inr f) (Inl e) = Inl e"
| "ap (Inl e) (Inr x) = Inl e"
| "ap (Inl e) (Inl e') = Inl (e @ e')"

definition z_string :: "string schema" where
  "z_string path input =
     (case input of RString s \<Rightarrow> Inr s | _ \<Rightarrow> Inl [Issue path ''invalid_type''])"

definition z_boolean :: "bool schema" where
  "z_boolean path input =
     (case input of RBoolean b \<Rightarrow> Inr b | _ \<Rightarrow> Inl [Issue path ''invalid_type''])"

text \<open>
  \<open>z.coerce.date()\<close> parses \<open>new Date(input)\<close> and rejects an invalid date.
  The constructor is the runtime's and is a parameter: it gives the time
  value, or nothing for an invalid date.
\<close>

definition z_coerce_date :: "(raw \<Rightarrow> int option) \<Rightarrow> int schema" where
  "z_coerce_date new_Date path input =
     (case new_Date input of Some t \<Rightarrow> Inr t | None \<Rightarrow> Inl [Issue path ''invalid_date''])"

definition z_optional :: "'a schema \<Rightarrow> 'a option schema" where
  "z_optional inner path input =
     (if input = RUndefined then Inr None
      else case inner path input of Inl e \<Rightarrow> Inl e | Inr v \<Rightarrow> Inr (Some v))"

definition z_default :: "'a schema \<Rightarrow> raw \<Rightarrow> 'a schema" where
  "z_default inner dflt path input = inner path (if input = RUndefined then dflt else input)"

fun parse_elements :: "'a schema \<Rightarrow> path_elem list \<Rightarrow> nat \<Rightarrow> raw list \<Rightarrow> 'a list parsed" where
  "parse_elements elem path i [] = Inr []"
| "parse_elements elem path i (x # xs) =
     ap (ap (Inr (\<lambda>v vs. v # vs)) (elem (path @ [Idx i]) x)) (parse_elements elem path (Suc i) xs)"

definition z_array :: "'a schema \<Rightarrow> 'a list schema" where
  "z_array elem path input =
     (case input of
        RArray xs \<Rightarrow> parse_elements elem path 0 xs
      | _ \<Rightarrow> Inl [Issue path ''invalid_type''])"

definition field :: "(string \<times> raw) list \<Rightarrow> string \<Rightarrow> raw" where
  "field props key = (case map_of props key of Some v \<Rightarrow> v | None \<Rightarrow> RUndefined)"

text \<open>
  The schema of the \<open>blog\<close> collection. \<open>image_of\<close> is the schema helper
  \<open>image\<close> that the framework passes to the schema function and
  \<open>reference_to\<close> the helper \<open>reference\<close> that it exports; both are parameters.
\<close>

definition blog_schema ::
  "(raw \<Rightarrow> int option) \<Rightarrow> (string \<Rightarrow> reference schema) \<Rightarrow> string schema \<Rightarrow> blog_data schema" where
  "blog_schema new_Date reference_to image_of path input =
     (case input of
        RObject props \<Rightarrow>
          ap (ap (ap (ap (ap (ap (ap (ap
            (Inr (\<lambda>t d p u i h c g.
               \<lparr>title = t, description = d, pubDate = p, updatedDate = u,
                isDraft = i, heroImage = h, category = c, tags = g\<rparr>))
            (z_string (path @ [Key ''title'']) (field props ''title'')))
            (z_string (path @ [Key ''description'']) (field props ''description'')))
            (z_coerce_date new_Date (path @ [Key ''pubDate'']) (field props ''pubDate'')))
            (z_optional (z_coerce_date new_Date) (path @ [Key ''updatedDate''])
               (field props ''updatedDate'')))
            (z_default z_boolean (RBoolean False) (path @ [Key ''isDraft''])
               (field props ''isDraft'')))
            (z_optional image_of (path @ [Key ''heroImage'']) (field props ''heroImage'')))
            (reference_to ''category'' (path @ [Key ''category'']) (field props ''category'')))
            (z_optional (z_array z_string) (path @ [Key ''tags'']) (field props ''tags''))
      | _ \<Rightarrow> Inl [Issue path ''invalid_type''])"

section \<open>Example content\<close>

text \<open>
  Three published posts and a draft, in the order of the store; a post that
  carries a numeric tag; a post that carries the tag \<open>constructor\<close>; and the
  frontmatter of two posts, one with an empty title and neither with
  \<open>isDraft\<close> or \<open>tags\<close>.
\<close>

definition mk_blog ::
  "string \<Rightarrow> int \<Rightarrow> bool \<Rightarrow> string \<Rightarrow> string list option \<Rightarrow> blog_entry" where
  "mk_blog i d draft cat ts =
     \<lparr>blog_id = i,
      blog_data = \<lparr>title = i, description = [], pubDate = d, updatedDate = None,
                   isDraft = draft, heroImage = None,
                   category = \<lparr>collection = ''category'', ref_id = cat\<rparr>, tags = ts\<rparr>\<rparr>"

definition post_A :: blog_entry where
  "post_A = mk_blog ''a'' 1757030400000 False ''tech'' (Some [''js''])"

definition post_B :: blog_entry where
  "post_B = mk_blog ''b'' 1756857600000 False ''tech'' (Some [''js'', ''css''])"

definition post_C :: blog_entry where
  "post_C = mk_blog ''c'' 1756684800000 False ''design'' None"

definition post_D :: blog_entry where
  "post_D = mk_blog ''d'' 1757116800000 True ''tech'' None"

definition post_E :: blog_entry where
  "post_E = mk_blog ''e'' 1756857600000 False ''misc'' (Some [''js'', ''js''])"

definition post_Y :: blog_entry where
  "post_Y = mk_blog ''y'' 1756684800000 False ''tech'' (Some [''recap'', ''2024''])"

definition post_K :: blog_entry where
  "post_K = mk_blog ''k'' 1756684800000 False ''tech'' (Some [''constructor''])"

definition example_blogs :: "blog_entry list" where
  "example_blogs = [post_C, post_B, post_D, post_E, post_A]"

definition example_new_Date :: "raw \<Rightarrow> int option" where
  "example_new_Date input = (case input of RDate t \<Rightarrow> Some t | _ \<Rightarrow> None)"

definition example_reference :: "string \<Rightarrow> reference schema" where
  "example_reference coll path input =
     (case input of
        RString s \<Rightarrow> Inr \<lparr>collection = coll, ref_id = s\<rparr>
      | _ \<Rightarrow> Inl [Issue path ''invalid_union''])"

definition frontmatter_untitled :: raw where
  "frontmatter_untitled =
     RObject [(''title'', RString []), (''description'', RString ''Notes''),
              (''pubDate'', RDate 1756684800000), (''category'', RString ''tech'')]"

definition frontmatter_titled :: raw where
  "frontmatter_titled =
     RObject [(''title'', RString ''Notes''), (''description'', RString ''Notes''),
              (''pubDate'', RDate 1756684800000), (''category'', RString ''tech'')]"

section \<open>Sorting lemmas\<close>

lemma item_value_insert_by_desc:
  assumes "\<forall>y \<in> set ys. i < index y \<and> criteria y = f (item_value y)"
  shows "map item_value (insert_by (compareMultiple Desc) \<lparr>criteria = f x, index = i, item_value = x\<rparr> ys)
           = insort_key (\<lambda>v. - f v) x (map item_value ys)"
  using assms
  by (induction ys) (auto simp: compareMultiple_def compareAscending_def Let_def)

lemma set_insert_by: "set (insert_by cmp x ys) = insert x (set ys)"
  by (induction ys) auto

lemma set_array_sort: "set (array_sort cmp xs) = set xs"
  by (induction xs) (auto simp: array_sort_def set_insert_by)

lemma sort_items_props:
  "y \<in> set (sort_items f i xs) \<Longrightarrow> i \<le> index y \<and> criteria y = f (item_value y)"
proof (induction xs arbitrary: i)
  case Nil
  then show ?case by simp
next
  case (Cons x xs)
  show ?case
  proof (cases "y = \<lparr>criteria = f x, index = i, item_value = x\<rparr>")
    case True
    then show ?thesis by simp
  next
    case False
    with Cons.prems have "y \<in> set (sort_items f (Suc i) xs)" by simp
    from Cons.IH [OF this] show ?thesis by simp
  qed
qed

lemma array_sort_items_desc:
  "map item_value (array_sort (compareMultiple Desc) (sort_items f i xs)) = sort_key (\<lambda>v. - f v) xs"
proof (induction xs arbitrary: i)
  case Nil
  show ?case by (simp add: array_sort_def)
next
  case (Cons x xs)
  let ?rest = "array_sort (compareMultiple Desc) (sort_items f (Suc i) xs)"
  have later: "\<forall>y \<in> set ?rest. i < index y \<and> criteria y = f (item_value y)"
  proof
    fix y assume "y \<in> set ?rest"
    then have "y \<in> set (sort_items f (Suc i) xs)" by (simp add: set_array_sort)
    from sort_items_props [OF this] show "i < index y \<and> criteria y = f (item_value y)" by simp
  qed
  have "map item_value (array_sort (compareMultiple Desc) (sort_items f i (x # xs)))
          = map item_value (insert_by (compareMultiple Desc) \<lparr>criteria = f x, index = i, item_value = x\<rparr> ?rest)"
    by (simp add: array_sort_def)
  also have "\<dots> = insort_key (\<lambda>v. - f v) x (map item_value ?rest)"
    by (rule item_value_insert_by_desc [OF later])
  also have "\<dots> = sort_key (\<lambda>v. - f v) (x # xs)"
    by (simp add: Cons.IH)
  finally show ?case .
qed

lemma orderBy_desc: "orderBy xs f Desc = sort_key (\<lambda>v. - f v) xs"
  by (simp add: orderBy_def array_sort_items_desc)

lemma published_sorted:
  "sorted_wrt (\<lambda>a b. pubDate (blog_data b) \<le> pubDate (blog_data a)) (getPublishedBlogs blogs)"
proof -
  let ?k = "\<lambda>v. - pubDate (blog_data v)"
  have "sorted (map ?k (sort_key ?k (filter (\<lambda>blog. \<not> isDraft (blog_data blog)) blogs)))"
    by (rule sorted_sort_key)
  then show ?thesis
    by (simp add: getPublishedBlogs_def orderBy_desc sorted_map)
qed

lemma getPublishedBlogs_example:
  "getPublishedBlogs example_blogs = [post_A, post_B, post_E, post_C]"
  by (simp add: getPublishedBlogs_def orderBy_desc example_blogs_def post_A_def post_B_def
        post_C_def post_D_def post_E_def mk_blog_def)

lemma example_tags:
  "tags_of post_A = [''js'']" "tags_of post_B = [''js'', ''css'']" "tags_of post_C = []"
  "tags_of post_E = [''js'', ''js'']" "tags_of post_Y = [''recap'', ''2024'']"
  "tags_of post_K = [''constructor'']"
  by (simp_all add: tags_of_def post_A_def post_B_def post_C_def post_E_def post_Y_def
        post_K_def mk_blog_def)

lemma example_categories:
  "ref_id (category (blog_data post_A)) = ''tech''" "ref_id (category (blog_data post_B)) = ''tech''"
  "ref_id (category (blog_data post_C)) = ''design''" "ref_id (category (blog_data post_E)) = ''misc''"
  by (simp_all add: post_A_def post_B_def post_C_def post_E_def mk_blog_def)

section \<open>Properties of the published posts\<close>

text \<open>
  C1: the output of \<open>getPublishedBlogs\<close> holds exactly the posts of the
  collection whose \<open>isDraft\<close> is false, each as often as the collection
  holds it, and so no post whose \<open>isDraft\<close> is true.
\<close>

theorem getPublishedBlogs_exactly_non_drafts:
  "mset (getPublishedBlogs blogs) = filter_mset (\<lambda>blog. \<not> isDraft (blog_data blog)) (mset blogs)
   \<and> set (getPublishedBlogs blogs) = {blog. blog \<in> set blogs \<and> \<not> isDraft (blog_data blog)}
   \<and> list_all (\<lambda>blog. \<not> isDraft (blog_data blog)) (getPublishedBlogs blogs)"
  by (auto simp: getPublishedBlogs_def orderBy_desc list_all_iff)

text \<open>
  C2: in the output of \<open>getPublishedBlogs\<close> the publish date never increases:
  each post is at least as recent as every later one, and so as the next one.
\<close>

theorem getPublishedBlogs_newest_first:
  "sorted_wrt (\<lambda>a b. pubDate (blog_data b) \<le> pubDate (blog_data a)) (getPublishedBlogs blogs)
   \<and> (\<forall>i. Suc i < length (getPublishedBlogs blogs) \<longrightarrow>
          pubDate (blog_data (getPublishedBlogs blogs ! Suc i))
            \<le> pubDate (blog_data (getPublishedBlogs blogs ! i)))"
  using published_sorted [of blogs] by (auto simp: sorted_wrt_iff_nth_less)

theorem getPublishedBlogs_newest_first_witness:
  "Suc 0 < length (getPublishedBlogs example_blogs)
   \<and> pubDate (blog_data (getPublishedBlogs example_blogs ! Suc 0))
        \<le> pubDate (blog_data (getPublishedBlogs example_blogs ! 0))
   \<and> pubDate (blog_data (getPublishedBlogs example_blogs ! Suc 0)) = 1756857600000"
  using getPublishedBlogs_newest_first [of example_blogs]
  by (simp add: getPublishedBlogs_example post_A_def post_B_def mk_blog_def)

text \<open>
  C3: \<open>getPublishedBlogs\<close> sorts stably: for every date, the non-draft posts
  published at that date come out in the order in which the collection holds
  them.
\<close>

theorem getPublishedBlogs_stable:
  "filter (\<lambda>blog. pubDate (blog_data blog) = d) (getPublishedBlogs blogs)
     = filter (\<lambda>blog. pubDate (blog_data blog) = d) (filter (\<lambda>blog. \<not> isDraft (blog_data blog)) blogs)"
  using sort_key_stable [of "\<lambda>v. - pubDate (blog_data v)" "- d" "filter (\<lambda>blog. \<not> isDraft (blog_data blog)) blogs"]
  by (simp add: getPublishedBlogs_def orderBy_desc)

section \<open>Properties of the category groups\<close>

lemma getCategoriesWithBlogs_example:
  "getCategoriesWithBlogs example_blogs BLOG_CATEGORIES =
     [\<lparr>cwb_category = BLOG_CATEGORIES ! 0, cwb_blogs = [post_A, post_B]\<rparr>,
      \<lparr>cwb_category = BLOG_CATEGORIES ! 1, cwb_blogs = []\<rparr>,
      \<lparr>cwb_category = BLOG_CATEGORIES ! 2, cwb_blogs = [post_C]\<rparr>]"
  by (simp add: getCategoriesWithBlogs_def getPublishedBlogs_example example_categories
        BLOG_CATEGORIES_def)

text \<open>
  C5: \<open>getCategoriesWithBlogs\<close> returns one group for every category, in the
  order of the category collection; the group of a category holds the
  published posts that refer to its id, in their newest-first order, and is
  the empty list when no published post refers to it.
\<close>

theorem getCategoriesWithBlogs_one_per_category:
  "map cwb_category (getCategoriesWithBlogs blogs categories) = categories
   \<and> length (getCategoriesWithBlogs blogs categories) = length categories
   \<and> (\<forall>i < length categories.
         cwb_blogs (getCategoriesWithBlogs blogs categories ! i)
           = filter (\<lambda>blog. ref_id (category (blog_data blog)) = cat_id (categories ! i))
               (getPublishedBlogs blogs)
         \<and> ((\<forall>blog \<in> set (getPublishedBlogs blogs).
                ref_id (category (blog_data blog)) \<noteq> cat_id (categories ! i))
              \<longrightarrow> cwb_blogs (getCategoriesWithBlogs blogs categories ! i) = []))"
  by (auto simp: getCategoriesWithBlogs_def Let_def comp_def filter_empty_conv intro: nth_equalityI)

theorem getCategoriesWithBlogs_one_per_category_witness:
  "(1::nat) < length BLOG_CATEGORIES
   \<and> list_all (\<lambda>blog. ref_id (category (blog_data blog)) \<noteq> cat_id (BLOG_CATEGORIES ! 1))
         (getPublishedBlogs example_blogs)
   \<and> cwb_blogs (getCategoriesWithBlogs example_blogs BLOG_CATEGORIES ! 1) = []
   \<and> map cwb_category (getCategoriesWithBlogs example_blogs BLOG_CATEGORIES) = BLOG_CATEGORIES"
proof -
  have h1: "(1::nat) < length BLOG_CATEGORIES"
    by (simp add: BLOG_CATEGORIES_def)
  have h2: "\<forall>blog \<in> set (getPublishedBlogs example_blogs).
              ref_id (category (blog_data blog)) \<noteq> cat_id (BLOG_CATEGORIES ! 1)"
    by (simp add: getPublishedBlogs_example example_categories BLOG_CATEGORIES_def)
  from getCategoriesWithBlogs_one_per_category [of example_blogs BLOG_CATEGORIES] h1 h2
  show ?thesis unfolding list_all_iff by blast
qed

lemma count_by_category:
  "distinct (map f cs) \<Longrightarrow>
     (\<Sum>c\<leftarrow>cs. length (filter (\<lambda>b. g b = f c) bs)) = length (filter (\<lambda>b. g b \<in> f ` set cs) bs)"
proof (induction cs)
  case Nil
  then show ?case by simp
next
  case (Cons c cs)
  have "length (filter (\<lambda>b. g b = f c) bs) + length (filter (\<lambda>b. g b \<in> f ` set cs) bs)
          = length (filter (\<lambda>b. g b \<in> f ` set (c # cs)) bs)"
    using Cons.prems by (induction bs) auto
  with Cons show ?case by simp
qed

lemma length_filter_eq_iff: "length (filter P xs) = length xs \<longleftrightarrow> (\<forall>x \<in> set xs. P x)"
proof (induction xs)
  case Nil
  show ?case by simp
next
  case (Cons x xs)
  have "length (filter P xs) \<noteq> Suc (length xs)"
    using length_filter_le [of P xs] by arith
  with Cons show ?case by auto
qed

text \<open>
  C6: for a category collection with pairwise distinct ids (the content store
  keys its entries by id), the group sizes of \<open>getCategoriesWithBlogs\<close> add up
  to at most the number of published posts, and to exactly that number if and
  only if every published post refers to the id of some category.
\<close>

theorem getCategoriesWithBlogs_counts:
  assumes "distinct (map cat_id categories)"
  shows "(\<Sum>g\<leftarrow>getCategoriesWithBlogs blogs categories. length (cwb_blogs g))
           \<le> length (getPublishedBlogs blogs)
         \<and> ((\<Sum>g\<leftarrow>getCategoriesWithBlogs blogs categories. length (cwb_blogs g))
              = length (getPublishedBlogs blogs)
            \<longleftrightarrow> (\<forall>blog \<in> set (getPublishedBlogs blogs).
                   \<exists>cat \<in> set categories. ref_id (category (blog_data blog)) = cat_id cat))"
proof -
  let ?P = "getPublishedBlogs blogs"
  let ?known = "\<lambda>b. ref_id (category (blog_data b)) \<in> cat_id ` set categories"
  have total: "(\<Sum>g\<leftarrow>getCategoriesWithBlogs blogs categories. length (cwb_blogs g))
                 = length (filter ?known ?P)"
    using count_by_category [OF assms, of "\<lambda>b. ref_id (category (blog_data b))" ?P]
    by (simp add: getCategoriesWithBlogs_def Let_def comp_def)
  have "length (filter ?known ?P) = length ?P \<longleftrightarrow> (\<forall>b \<in> set ?P. ?known b)"
    by (rule length_filter_eq_iff)
  moreover have "length (filter ?known ?P) \<le> length ?P" by simp
  moreover have "(\<forall>b \<in> set ?P. ?known b) \<longleftrightarrow>
      (\<forall>blog \<in> set ?P. \<exists>cat \<in> set categories. ref_id (category (blog_data blog)) = cat_id cat)"
    by (simp add: image_iff)
  ultimately show ?thesis
    unfolding total by simp
qed

theorem getCategoriesWithBlogs_counts_witness:
  "distinct (map cat_id BLOG_CATEGORIES)
   \<and> (\<Sum>g\<leftarrow>getCategoriesWithBlogs example_blogs BLOG_CATEGORIES. length (cwb_blogs g))
        \<le> length (getPublishedBlogs example_blogs)
   \<and> (\<Sum>g\<leftarrow>getCategoriesWithBlogs example_blogs BLOG_CATEGORIES. length (cwb_blogs g)) = 3
   \<and> length (getPublishedBlogs example_blogs) = 4
   \<and> \<not> list_all (\<lambda>blog. \<exists>cat \<in> set BLOG_CATEGORIES. ref_id (category (blog_data blog)) = cat_id cat)
          (getPublishedBlogs example_blogs)"
proof -
  have h: "distinct (map cat_id BLOG_CATEGORIES)"
    by (simp add: BLOG_CATEGORIES_def)
  have c: "(\<Sum>g\<leftarrow>getCategoriesWithBlogs example_blogs BLOG_CATEGORIES. length (cwb_blogs g)) = 3"
    by (simp add: getCategoriesWithBlogs_example)
  have l: "length (getPublishedBlogs example_blogs) = 4"
    by (simp add: getPublishedBlogs_example)
  have ne: "(\<Sum>g\<leftarrow>getCategoriesWithBlogs example_blogs BLOG_CATEGORIES. length (cwb_blogs g))
              \<noteq> length (getPublishedBlogs example_blogs)"
    unfolding c l by simp
  from getCategoriesWithBlogs_counts [OF h, of example_blogs] h c l ne
  show ?thesis unfolding list_all_iff by blast
qed

section \<open>Properties of the tag groups\<close>

lemma update_new: "map_of m k = None \<Longrightarrow> AList.update k v m = m @ [(k, v)]"
  by (induction m) (auto split: if_splits)

lemma update_last: "map_of m k = None \<Longrightarrow> AList.update k v (m @ [(k, w)]) = m @ [(k, v)]"
  by (induction m) (auto split: if_splits)

lemma add_blog_to_tag_eq:
  "add_blog_to_tag blog t m =
     (case map_of m t of
        Some bucket \<Rightarrow> Inr (AList.update t (bucket @ [blog]) m)
      | None \<Rightarrow> if t \<in> set Object_prototype_keys then Inl TypeError else Inr (m @ [(t, [blog])]))"
  by (auto simp: add_blog_to_tag_def get_property_def Let_def update_new update_last
           split: option.splits)

lemma in_update: "p \<in> set (AList.update k v m) \<Longrightarrow> p = (k, v) \<or> p \<in> set m"
  by (induction m) (auto split: if_splits)

lemma add_blog_to_tag_inv:
  assumes step: "add_blog_to_tag blog t m = Inr m'"
    and inv: "\<forall>p \<in> set m. Q (fst p) (snd p)"
    and new: "Q t [blog]"
    and grow: "\<And>bucket. Q t bucket \<Longrightarrow> Q t (bucket @ [blog])"
  shows "\<forall>p \<in> set m'. Q (fst p) (snd p)"
proof (cases "map_of m t")
  case None
  with step have "m' = m @ [(t, [blog])]"
    by (simp add: add_blog_to_tag_eq split: if_splits)
  with inv new show ?thesis by auto
next
  case (Some bucket)
  with step have m': "m' = AList.update t (bucket @ [blog]) m"
    by (simp add: add_blog_to_tag_eq)
  from Some have "(t, bucket) \<in> set m" by (rule map_of_SomeD)
  with inv have "Q t bucket" by fastforce
  then have "Q t (bucket @ [blog])" by (rule grow)
  with inv show ?thesis
    unfolding m' by (auto dest!: in_update)
qed

lemma forEach_tag_run: "forEach_tag blog ts m = run_visits (map (\<lambda>t. (t, blog)) ts) m"
  by (induction ts arbitrary: m) (auto split: sum.splits)

lemma run_visits_append:
  "run_visits (vs @ ws) m = (case run_visits vs m of Inl e \<Rightarrow> Inl e | Inr m' \<Rightarrow> run_visits ws m')"
  by (induction vs arbitrary: m) (auto split: sum.splits)

lemma forEach_blog_run: "forEach_blog blogs m = run_visits (tag_visits blogs) m"
  by (induction blogs arbitrary: m)
     (auto simp: tag_visits_def forEach_tag_run run_visits_append split: sum.splits)

lemma run_visits_inv:
  assumes "run_visits vs m = Inr m'"
    and "\<forall>p \<in> set m. Q (fst p) (snd p)"
    and "\<forall>v \<in> set vs. Q (fst v) [snd v] \<and> (\<forall>bucket. Q (fst v) bucket \<longrightarrow> Q (fst v) (bucket @ [snd v]))"
  shows "\<forall>p \<in> set m'. Q (fst p) (snd p)"
  using assms
proof (induction vs arbitrary: m)
  case Nil
  then show ?case by simp
next
  case (Cons v vs)
  from Cons.prems(1) obtain m1 where step: "add_blog_to_tag (snd v) (fst v) m = Inr m1"
    and rest: "run_visits vs m1 = Inr m'"
    by (auto split: sum.splits)
  have inv1: "\<forall>p \<in> set m1. Q (fst p) (snd p)"
  proof (rule add_blog_to_tag_inv [OF step Cons.prems(2)])
    show "Q (fst v) [snd v]" using Cons.prems(3) by simp
    show "\<And>bucket. Q (fst v) bucket \<Longrightarrow> Q (fst v) (bucket @ [snd v])"
      using Cons.prems(3) by simp
  qed
  have later: "\<forall>v \<in> set vs. Q (fst v) [snd v]
      \<and> (\<forall>bucket. Q (fst v) bucket \<longrightarrow> Q (fst v) (bucket @ [snd v]))"
    using Cons.prems(3) by simp
  show ?case by (rule Cons.IH [OF rest inv1 later])
qed

lemma set_Object_entries: "set (Object_entries obj) = set obj"
  by (auto simp: Object_entries_def)

lemma in_tag_visits: "v \<in> set (tag_visits blogs) \<longleftrightarrow> snd v \<in> set blogs \<and> fst v \<in> set (tags_of (snd v))"
  by (cases v) (auto simp: tag_visits_def)

lemma getTagsWithBlogs_example:
  "getTagsWithBlogs example_blogs =
     Inr [\<lparr>twb_tag = ''js'', twb_blogs = [post_A, post_B, post_E, post_E]\<rparr>,
          \<lparr>twb_tag = ''css'', twb_blogs = [post_B]\<rparr>]"
  by (simp add: getTagsWithBlogs_def getPublishedBlogs_example example_tags add_blog_to_tag_eq
        Object_prototype_keys_def Object_entries_def is_array_index_def is_digit_def)

text \<open>
  C10: when \<open>getTagsWithBlogs\<close> returns, no group is empty: every group holds
  at least one post, and each of its posts is a published post that carries
  the group's tag.
\<close>

theorem getTagsWithBlogs_no_empty_bucket:
  assumes "getTagsWithBlogs blogs = Inr out"
  shows "\<forall>g \<in> set out. twb_blogs g \<noteq> []
           \<and> (\<forall>blog \<in> set (twb_blogs g).
                 blog \<in> set (getPublishedBlogs blogs) \<and> twb_tag g \<in> set (tags_of blog))"
proof -
  let ?P = "getPublishedBlogs blogs"
  let ?Q = "\<lambda>t bucket. bucket \<noteq> [] \<and> (\<forall>blog \<in> set bucket. blog \<in> set ?P \<and> t \<in> set (tags_of blog))"
  from assms obtain m where run: "run_visits (tag_visits ?P) [] = Inr m"
    and out: "out = map (\<lambda>(tag_name, blogs). \<lparr>twb_tag = tag_name, twb_blogs = blogs\<rparr>) (Object_entries m)"
    by (auto simp: getTagsWithBlogs_def forEach_blog_run split: sum.splits)
  have "\<forall>p \<in> set m. ?Q (fst p) (snd p)"
    using run by (rule run_visits_inv [where Q = ?Q]) (auto simp: in_tag_visits)
  then show ?thesis
    unfolding out by (auto simp: set_Object_entries)
qed

theorem getTagsWithBlogs_no_empty_bucket_witness:
  "getTagsWithBlogs example_blogs =
     Inr [\<lparr>twb_tag = ''js'', twb_blogs = [post_A, post_B, post_E, post_E]\<rparr>,
          \<lparr>twb_tag = ''css'', twb_blogs = [post_B]\<rparr>]
   \<and> list_all (\<lambda>g. twb_blogs g \<noteq> []
         \<and> list_all (\<lambda>blog. blog \<in> set (getPublishedBlogs example_blogs)
               \<and> twb_tag g \<in> set (tags_of blog)) (twb_blogs g))
        [\<lparr>twb_tag = ''js'', twb_blogs = [post_A, post_B, post_E, post_E]\<rparr>,
         \<lparr>twb_tag = ''css'', twb_blogs = [post_B]\<rparr>]"
  using getTagsWithBlogs_example getTagsWithBlogs_no_empty_bucket [OF getTagsWithBlogs_example]
  unfolding list_all_iff by (rule conjI)

lemma set_first_appearance: "set (first_appearance xs) = set xs"
  by (induction xs rule: first_appearance.induct) auto

lemma distinct_first_appearance: "distinct (first_appearance xs)"
  by (induction xs rule: first_appearance.induct) (auto simp: set_first_appearance)

lemma first_appearance_snoc:
  "first_appearance (xs @ [y]) =
     (if y \<in> set xs then first_appearance xs else first_appearance xs @ [y])"
  by (induction xs rule: first_appearance.induct) auto

lemma map_of_keyed: "map_of (map (\<lambda>k. (k, F k)) ks) t = (if t \<in> set ks then Some (F t) else None)"
  by (induction ks) auto

lemma update_keyed:
  "distinct ks \<Longrightarrow> t \<in> set ks \<Longrightarrow>
     AList.update t v (map (\<lambda>k. (k, F k)) ks) = map (\<lambda>k. (k, if k = t then v else F k)) ks"
  by (induction ks) auto

lemma visits_of_snoc:
  "visits_of k (vs @ [(t, b)]) = (if k = t then visits_of k vs @ [b] else visits_of k vs)"
  by (simp add: visits_of_def)

lemma visits_of_unvisited: "t \<notin> fst ` set vs \<Longrightarrow> visits_of t vs = []"
  by (auto simp: visits_of_def filter_empty_conv)

lemma add_blog_to_tag_buckets:
  assumes "t \<notin> set Object_prototype_keys"
  shows "add_blog_to_tag b t (tag_buckets vs) = Inr (tag_buckets (vs @ [(t, b)]))"
proof (cases "t \<in> fst ` set vs")
  case True
  let ?ks = "first_appearance (map fst vs)"
  from True have t: "t \<in> set ?ks" by (simp add: set_first_appearance)
  have "add_blog_to_tag b t (tag_buckets vs)
          = Inr (AList.update t (visits_of t vs @ [b]) (map (\<lambda>k. (k, visits_of k vs)) ?ks))"
    using t by (simp add: add_blog_to_tag_eq tag_buckets_def map_of_keyed)
  also have "AList.update t (visits_of t vs @ [b]) (map (\<lambda>k. (k, visits_of k vs)) ?ks)
          = map (\<lambda>k. (k, if k = t then visits_of t vs @ [b] else visits_of k vs)) ?ks"
    by (rule update_keyed [OF distinct_first_appearance t])
  also have "\<dots> = tag_buckets (vs @ [(t, b)])"
    using True by (auto simp: tag_buckets_def first_appearance_snoc visits_of_snoc)
  finally show ?thesis .
next
  case False
  let ?ks = "first_appearance (map fst vs)"
  from False have t: "t \<notin> set ?ks" by (simp add: set_first_appearance)
  have "add_blog_to_tag b t (tag_buckets vs) = Inr (tag_buckets vs @ [(t, [b])])"
    using t assms by (simp add: add_blog_to_tag_eq tag_buckets_def map_of_keyed)
  also have "tag_buckets vs @ [(t, [b])] = tag_buckets (vs @ [(t, b)])"
    using False t
    by (auto simp: tag_buckets_def first_appearance_snoc visits_of_snoc visits_of_unvisited)
  finally show ?thesis .
qed

lemma run_visits_buckets:
  "\<forall>v \<in> set vs. fst v \<notin> set Object_prototype_keys \<Longrightarrow> run_visits vs [] = Inr (tag_buckets vs)"
proof (induction vs rule: rev_induct)
  case Nil
  show ?case by (simp add: tag_buckets_def)
next
  case (snoc v vs)
  then have "run_visits vs [] = Inr (tag_buckets vs)" by simp
  moreover have "add_blog_to_tag (snd v) (fst v) (tag_buckets vs) = Inr (tag_buckets (vs @ [(fst v, snd v)]))"
    using snoc.prems by (intro add_blog_to_tag_buckets) simp
  ultimately show ?case by (simp add: run_visits_append)
qed

lemma sorted_tag_visits:
  assumes "sorted_wrt R blogs" and "\<And>x. R x x"
  shows "sorted_wrt (\<lambda>v w. R (snd v) (snd w)) (tag_visits blogs)"
  using assms(1)
proof (induction blogs)
  case Nil
  show ?case by (simp add: tag_visits_def)
next
  case (Cons b bs)
  have same: "sorted_wrt (\<lambda>v w. R (snd v) (snd w)) (map (\<lambda>t. (t, b)) ts)" for ts
    by (induction ts) (auto simp: assms(2))
  have split: "tag_visits (b # bs) = map (\<lambda>t. (t, b)) (tags_of b) @ tag_visits bs"
    by (simp add: tag_visits_def)
  from Cons show ?case
    unfolding split by (auto simp: sorted_wrt_append same in_tag_visits)
qed

lemma sorted_visits_of:
  assumes "sorted_wrt R blogs" and "\<And>x. R x x"
  shows "sorted_wrt R (visits_of t (tag_visits blogs))"
  using sorted_wrt_filter [OF sorted_tag_visits [OF assms], of "\<lambda>v. fst v = t"]
  by (simp add: visits_of_def sorted_wrt_map)

lemma fst_tag_visits: "map fst (tag_visits blogs) = concat (map tags_of blogs)"
  by (induction blogs) (simp_all add: tag_visits_def comp_def)

lemma visits_of_tag_visits:
  "visits_of t (tag_visits blogs) = concat (map (\<lambda>b. replicate (count_list (tags_of b) t) b) blogs)"
proof (induction blogs)
  case Nil
  show ?case by (simp add: tag_visits_def visits_of_def)
next
  case (Cons b bs)
  have one: "map snd (filter (\<lambda>v. fst v = t) (map (\<lambda>t'. (t', b)) ts)) = replicate (count_list ts t) b" for ts
    by (induction ts) auto
  have "visits_of t (tag_visits (b # bs))
          = map snd (filter (\<lambda>v. fst v = t) (map (\<lambda>t'. (t', b)) (tags_of b))) @ visits_of t (tag_visits bs)"
    by (simp add: tag_visits_def visits_of_def)
  with Cons one show ?case by simp
qed

lemma insort_key_keyed:
  "insort_key (\<lambda>p. f (fst p)) (k, F k) (map (\<lambda>k. (k, F k)) ks) = map (\<lambda>k. (k, F k)) (insort_key f k ks)"
  by (induction ks) auto

lemma sort_key_keyed:
  "sort_key (\<lambda>p. f (fst p)) (map (\<lambda>k. (k, F k)) ks) = map (\<lambda>k. (k, F k)) (sort_key f ks)"
  by (induction ks) (simp_all add: insort_key_keyed)

lemma Object_entries_keyed:
  "Object_entries (map (\<lambda>k. (k, F k)) ks) =
     map (\<lambda>k. (k, F k))
       (sort_key decimal_value (filter is_array_index ks) @ filter (\<lambda>k. \<not> is_array_index k) ks)"
  by (simp add: Object_entries_def filter_map comp_def sort_key_keyed)

lemma getPublishedBlogs_example_Y:
  "getPublishedBlogs [post_Y] = [post_Y]" "getPublishedBlogs [post_Y, post_A] = [post_A, post_Y]"
  "getPublishedBlogs [post_K] = [post_K]"
  by (simp_all add: getPublishedBlogs_def orderBy_desc post_Y_def post_A_def post_K_def mk_blog_def)

lemma array_index_examples:
  "is_array_index ''2024''" "\<not> is_array_index ''recap''" "\<not> is_array_index ''js''"
  by (simp_all add: is_array_index_def is_digit_def decimal_value_def)

lemma run_visits_throws:
  assumes "v \<in> set vs" and "fst v \<in> set Object_prototype_keys"
    and "\<forall>k \<in> fst ` set m. k \<notin> set Object_prototype_keys"
  shows "run_visits vs m = Inl TypeError"
  using assms
proof (induction vs arbitrary: m)
  case Nil
  then show ?case by simp
next
  case (Cons w ws)
  show ?case
  proof (cases "fst w \<in> set Object_prototype_keys")
    case True
    with Cons.prems(3) have "map_of m (fst w) = None"
      by (auto simp: map_of_eq_None_iff)
    with True show ?thesis by (simp add: add_blog_to_tag_eq)
  next
    case False
    with Cons.prems have later: "v \<in> set ws" by auto
    show ?thesis
    proof (cases "add_blog_to_tag (snd w) (fst w) m")
      case (Inl e)
      then show ?thesis
        by (cases e) simp
    next
      case (Inr m1)
      have "\<forall>k \<in> fst ` set m1. k \<notin> set Object_prototype_keys"
      proof
        fix k assume "k \<in> fst ` set m1"
        then obtain p where p: "p \<in> set m1" "k = fst p" by auto
        from Inr p(1) have "p \<in> set m \<or> fst p = fst w"
          by (auto simp: add_blog_to_tag_eq split: option.splits if_splits dest: in_update)
        with p(2) False Cons.prems(3) show "k \<notin> set Object_prototype_keys" by auto
      qed
      from Cons.IH [OF later Cons.prems(2) this] Inr show ?thesis by simp
    qed
  qed
qed

lemma getTagsWithBlogs_throws:
  assumes "blog \<in> set (getPublishedBlogs blogs)" and "t \<in> set (tags_of blog)"
    and "t \<in> set Object_prototype_keys"
  shows "getTagsWithBlogs blogs = Inl TypeError"
proof -
  have "(t, blog) \<in> set (tag_visits (getPublishedBlogs blogs))"
    using assms(1,2) by (simp add: in_tag_visits)
  then have "run_visits (tag_visits (getPublishedBlogs blogs)) [] = Inl TypeError"
    by (rule run_visits_throws) (use assms(3) in simp_all)
  then show ?thesis
    by (simp add: getTagsWithBlogs_def forEach_blog_run)
qed

text \<open>
  C4, as the code has it: when no tag of a published post names a property
  that a plain object inherits from \<open>Object.prototype\<close>, \<open>getTagsWithBlogs\<close>
  returns one group for every tag, ordered as \<open>Object.entries\<close> lists the
  keys: the tags that are array indices first, in ascending numeric order,
  then the other tags in the order of their first appearance along the
  newest-first published list and, within a post, along its tags. The group
  of a tag holds each published post once for every occurrence of the tag in
  the post's tags, in the newest-first order of the published list.
\<close>

theorem getTagsWithBlogs_entries_order:
  assumes "\<forall>blog \<in> set (getPublishedBlogs blogs). \<forall>t \<in> set (tags_of blog). t \<notin> set Object_prototype_keys"
  shows "getTagsWithBlogs blogs =
           Inr (map (\<lambda>t. \<lparr>twb_tag = t,
                          twb_blogs = concat (map (\<lambda>b. replicate (count_list (tags_of b) t) b)
                                                (getPublishedBlogs blogs))\<rparr>)
                  (sort_key decimal_value
                     (filter is_array_index
                        (first_appearance (concat (map tags_of (getPublishedBlogs blogs)))))
                   @ filter (\<lambda>t. \<not> is_array_index t)
                       (first_appearance (concat (map tags_of (getPublishedBlogs blogs))))))
         \<and> (\<forall>t. sorted_wrt (\<lambda>a b. pubDate (blog_data b) \<le> pubDate (blog_data a))
                  (concat (map (\<lambda>b. replicate (count_list (tags_of b) t) b)
                             (getPublishedBlogs blogs))))"
proof -
  let ?P = "getPublishedBlogs blogs"
  have safe: "\<forall>v \<in> set (tag_visits ?P). fst v \<notin> set Object_prototype_keys"
    using assms by (auto simp: in_tag_visits)
  have "forEach_blog ?P [] = Inr (tag_buckets (tag_visits ?P))"
    unfolding forEach_blog_run by (rule run_visits_buckets [OF safe])
  then have "getTagsWithBlogs blogs =
      Inr (map (\<lambda>(tag_name, blogs). \<lparr>twb_tag = tag_name, twb_blogs = blogs\<rparr>)
             (Object_entries (tag_buckets (tag_visits ?P))))"
    by (simp add: getTagsWithBlogs_def)
  then have shape: "getTagsWithBlogs blogs =
      Inr (map (\<lambda>t. \<lparr>twb_tag = t, twb_blogs = visits_of t (tag_visits ?P)\<rparr>)
             (sort_key decimal_value (filter is_array_index (first_appearance (map fst (tag_visits ?P))))
              @ filter (\<lambda>t. \<not> is_array_index t) (first_appearance (map fst (tag_visits ?P)))))"
    by (simp add: tag_buckets_def Object_entries_keyed comp_def)
  have "sorted_wrt (\<lambda>a b. pubDate (blog_data b) \<le> pubDate (blog_data a)) (visits_of t (tag_visits ?P))" for t
    by (rule sorted_visits_of [OF published_sorted]) simp
  with shape show ?thesis
    by (simp add: fst_tag_visits visits_of_tag_visits)
qed

theorem getTagsWithBlogs_entries_order_witness:
  "list_all (\<lambda>blog. list_all (\<lambda>t. t \<notin> set Object_prototype_keys) (tags_of blog))
     (getPublishedBlogs [post_Y, post_A])
   \<and> getTagsWithBlogs [post_Y, post_A] =
       Inr [\<lparr>twb_tag = ''2024'', twb_blogs = [post_Y]\<rparr>,
            \<lparr>twb_tag = ''js'', twb_blogs = [post_A]\<rparr>,
            \<lparr>twb_tag = ''recap'', twb_blogs = [post_Y]\<rparr>]"
proof -
  have h: "\<forall>blog \<in> set (getPublishedBlogs [post_Y, post_A]).
             \<forall>t \<in> set (tags_of blog). t \<notin> set Object_prototype_keys"
    by (simp add: getPublishedBlogs_example_Y example_tags Object_prototype_keys_def)
  from getTagsWithBlogs_entries_order [OF h]
  have "getTagsWithBlogs [post_Y, post_A] =
       Inr [\<lparr>twb_tag = ''2024'', twb_blogs = [post_Y]\<rparr>,
            \<lparr>twb_tag = ''js'', twb_blogs = [post_A]\<rparr>,
            \<lparr>twb_tag = ''recap'', twb_blogs = [post_Y]\<rparr>]"
    by (simp add: getPublishedBlogs_example_Y example_tags array_index_examples)
  with h show ?thesis by (simp add: list_all_iff)
qed

text \<open>
  On a post tagged \<open>recap\<close>, \<open>2024\<close> the groups come out as \<open>2024\<close>,
  \<open>recap\<close>: not in the order of first appearance.
\<close>

theorem getTagsWithBlogs_numeric_tag_first:
  "getTagsWithBlogs [post_Y] =
       Inr [\<lparr>twb_tag = ''2024'', twb_blogs = [post_Y]\<rparr>,
            \<lparr>twb_tag = ''recap'', twb_blogs = [post_Y]\<rparr>]
   \<and> first_appearance (concat (map tags_of (getPublishedBlogs [post_Y]))) = [''recap'', ''2024'']
   \<and> map twb_tag [\<lparr>twb_tag = ''2024'', twb_blogs = [post_Y]\<rparr>,
                    \<lparr>twb_tag = ''recap'', twb_blogs = [post_Y]\<rparr>]
        \<noteq> first_appearance (concat (map tags_of (getPublishedBlogs [post_Y])))"
  by (simp add: getTagsWithBlogs_def getPublishedBlogs_example_Y example_tags add_blog_to_tag_eq
        Object_prototype_keys_def Object_entries_def array_index_examples)

text \<open>
  C9: on a published post tagged \<open>constructor\<close> the call throws: the lookup
  \<open>tagMap[tag]\<close> finds the inherited \<open>Object.prototype.constructor\<close>, which is
  truthy and has no \<open>push\<close>, so the post reaches no group at all.
\<close>

theorem getTagsWithBlogs_constructor_tag:
  "getPublishedBlogs [post_K] = [post_K] \<and> tags_of post_K = [''constructor'']
   \<and> getTagsWithBlogs [post_K] = Inl TypeError"
  by (simp add: getTagsWithBlogs_def getPublishedBlogs_example_Y example_tags add_blog_to_tag_eq
        Object_prototype_keys_def)

section \<open>Properties of the blog schema\<close>

lemma ap_Inr_iff: "ap f r = Inr y \<longleftrightarrow> (\<exists>g x. f = Inr g \<and> r = Inr x \<and> y = g x)"
  by (cases f; cases r) auto

lemma ap_Inl_left: "ap (Inl e) r = Inl (e @ (case r of Inl e' \<Rightarrow> e' | Inr x \<Rightarrow> []))"
  by (cases r) auto

lemma z_string_not_string:
  "(\<forall>s. input \<noteq> RString s) \<Longrightarrow> z_string path input = Inl [Issue path ''invalid_type'']"
  by (cases input) (auto simp: z_string_def)

lemma field_absent: "map_of props key = None \<Longrightarrow> field props key = RUndefined"
  by (simp add: field_def)

text \<open>
  C7, as the code has it: the schema asks of \<open>title\<close> only that it is a
  string. A record whose title is absent or not a string fails validation
  with an issue at the path of \<open>title\<close>; a record whose title is any string,
  the empty one included, and whose other fields their schemas accept, passes
  and keeps the title as it is.
\<close>

theorem blog_schema_title_is_text:
  "((\<forall>s. field props ''title'' \<noteq> RString s) \<longrightarrow>
      (\<exists>issues. blog_schema new_Date reference_to image_of path (RObject props) = Inl issues
         \<and> Issue (path @ [Key ''title'']) ''invalid_type'' \<in> set issues))
   \<and> (field props ''title'' = RString t
        \<and> field props ''description'' = RString d
        \<and> new_Date (field props ''pubDate'') = Some p
        \<and> z_optional (z_coerce_date new_Date) (path @ [Key ''updatedDate'']) (field props ''updatedDate'') = Inr u
        \<and> z_default z_boolean (RBoolean False) (path @ [Key ''isDraft'']) (field props ''isDraft'') = Inr i
        \<and> z_optional image_of (path @ [Key ''heroImage'']) (field props ''heroImage'') = Inr h
        \<and> reference_to ''category'' (path @ [Key ''category'']) (field props ''category'') = Inr c
        \<and> z_optional (z_array z_string) (path @ [Key ''tags'']) (field props ''tags'') = Inr g
      \<longrightarrow> blog_schema new_Date reference_to image_of path (RObject props) =
            Inr \<lparr>title = t, description = d, pubDate = p, updatedDate = u,
                 isDraft = i, heroImage = h, category = c, tags = g\<rparr>)"
proof (intro conjI impI)
  assume "\<forall>s. field props ''title'' \<noteq> RString s"
  then have "z_string (path @ [Key ''title'']) (field props ''title'')
               = Inl [Issue (path @ [Key ''title'']) ''invalid_type'']"
    by (rule z_string_not_string)
  then show "\<exists>issues. blog_schema new_Date reference_to image_of path (RObject props) = Inl issues
         \<and> Issue (path @ [Key ''title'']) ''invalid_type'' \<in> set issues"
    by (simp add: blog_schema_def ap_Inl_left)
next
  assume "field props ''title'' = RString t
        \<and> field props ''description'' = RString d
        \<and> new_Date (field props ''pubDate'') = Some p
        \<and> z_optional (z_coerce_date new_Date) (path @ [Key ''updatedDate'']) (field props ''updatedDate'') = Inr u
        \<and> z_default z_boolean (RBoolean False) (path @ [Key ''isDraft'']) (field props ''isDraft'') = Inr i
        \<and> z_optional image_of (path @ [Key ''heroImage'']) (field props ''heroImage'') = Inr h
        \<and> reference_to ''category'' (path @ [Key ''category'']) (field props ''category'') = Inr c
        \<and> z_optional (z_array z_string) (path @ [Key ''tags'']) (field props ''tags'') = Inr g"
  then show "blog_schema new_Date reference_to image_of path (RObject props) =
            Inr \<lparr>title = t, description = d, pubDate = p, updatedDate = u,
                 isDraft = i, heroImage = h, category = c, tags = g\<rparr>"
    by (simp add: blog_schema_def z_string_def z_coerce_date_def)
qed

theorem blog_schema_title_is_text_witness:
  "field [(''description'', RString ''Notes'')] ''title'' = RUndefined
   \<and> (\<exists>issues. blog_schema example_new_Date example_reference z_string []
                   (RObject [(''description'', RString ''Notes'')]) = Inl issues
         \<and> Issue [Key ''title''] ''invalid_type'' \<in> set issues)
   \<and> field [(''title'', RString ''Notes''), (''description'', RString ''Notes''),
             (''pubDate'', RDate 1756684800000), (''category'', RString ''tech'')] ''title''
        = RString ''Notes''
   \<and> blog_schema example_new_Date example_reference z_string [] frontmatter_titled =
       Inr \<lparr>title = ''Notes'', description = ''Notes'', pubDate = 1756684800000,
            updatedDate = None, isDraft = False, heroImage = None,
            category = \<lparr>collection = ''category'', ref_id = ''tech''\<rparr>, tags = None\<rparr>"
proof -
  let ?bad = "[(''description'', RString ''Notes'')]"
  let ?good = "[(''title'', RString ''Notes''), (''description'', RString ''Notes''),
                (''pubDate'', RDate 1756684800000), (''category'', RString ''tech'')]"
  have bad: "field ?bad ''title'' = RUndefined"
    by (simp add: field_def)
  then have no_string: "\<forall>s. field ?bad ''title'' \<noteq> RString s"
    by simp
  have failure: "\<exists>issues. blog_schema example_new_Date example_reference z_string [] (RObject ?bad) = Inl issues
         \<and> Issue [Key ''title''] ''invalid_type'' \<in> set issues"
    using blog_schema_title_is_text [of ?bad example_new_Date example_reference z_string "[]"] no_string
    by simp
  have good: "field ?good ''title'' = RString ''Notes''"
    "field ?good ''description'' = RString ''Notes''"
    "example_new_Date (field ?good ''pubDate'') = Some 1756684800000"
    "z_optional (z_coerce_date example_new_Date) ([] @ [Key ''updatedDate'']) (field ?good ''updatedDate'') = Inr None"
    "z_default z_boolean (RBoolean False) ([] @ [Key ''isDraft'']) (field ?good ''isDraft'') = Inr False"
    "z_optional z_string ([] @ [Key ''heroImage'']) (field ?good ''heroImage'') = Inr None"
    "example_reference ''category'' ([] @ [Key ''category'']) (field ?good ''category'')
       = Inr \<lparr>collection = ''category'', ref_id = ''tech''\<rparr>"
    "z_optional (z_array z_string) ([] @ [Key ''tags'']) (field ?good ''tags'') = Inr None"
    by (simp_all add: field_def example_new_Date_def z_optional_def z_default_def z_boolean_def
          example_reference_def)
  have success: "blog_schema example_new_Date example_reference z_string [] (RObject ?good) =
       Inr \<lparr>title = ''Notes'', description = ''Notes'', pubDate = 1756684800000,
            updatedDate = None, isDraft = False, heroImage = None,
            category = \<lparr>collection = ''category'', ref_id = ''tech''\<rparr>, tags = None\<rparr>"
    using blog_schema_title_is_text [of ?good example_new_Date example_reference z_string "[]"
        "''Notes''" "''Notes''" 1756684800000 None False None
        "\<lparr>collection = ''category'', ref_id = ''tech''\<rparr>" None] good
    by blast
  from bad failure good(1) success show ?thesis
    unfolding frontmatter_titled_def by blast
qed

text \<open>A record with the empty title passes validation.\<close>

theorem blog_schema_accepts_empty_title:
  "blog_schema example_new_Date example_reference z_string [] frontmatter_untitled =
     Inr \<lparr>title = [], description = ''Notes'', pubDate = 1756684800000, updatedDate = None,
          isDraft = False, heroImage = None,
          category = \<lparr>collection = ''category'', ref_id = ''tech''\<rparr>, tags = None\<rparr>"
  by (simp add: blog_schema_def frontmatter_untitled_def field_def z_string_def z_coerce_date_def
        z_optional_def z_default_def z_boolean_def example_new_Date_def example_reference_def)

text \<open>
  C8, as the code has it: in a record that passes validation an absent
  \<open>isDraft\<close> becomes \<open>false\<close>, and an absent \<open>tags\<close> stays \<open>undefined\<close> in the
  validated entity; it is \<open>getTagsWithBlogs\<close> that reads it as the empty
  list (\<open>blog.data.tags ?? []\<close>).
\<close>

theorem blog_schema_absent_fields:
  assumes "blog_schema new_Date reference_to image_of path (RObject props) = Inr e"
  shows "(map_of props ''isDraft'' = None \<longrightarrow> isDraft e = False)
       \<and> (map_of props ''tags'' = None \<longrightarrow>
            tags e = None \<and> tags_of \<lparr>blog_id = i, blog_data = e\<rparr> = [])"
proof -
  from assms obtain d g where
    draft: "z_default z_boolean (RBoolean False) (path @ [Key ''isDraft'']) (field props ''isDraft'') = Inr d"
    and tgs: "z_optional (z_array z_string) (path @ [Key ''tags'']) (field props ''tags'') = Inr g"
    and e: "isDraft e = d" "tags e = g"
    unfolding blog_schema_def raw.case ap_Inr_iff by auto
  have "map_of props ''isDraft'' = None \<longrightarrow> d = False"
    using draft by (auto simp: field_absent z_default_def z_boolean_def)
  moreover have "map_of props ''tags'' = None \<longrightarrow> g = None"
    using tgs by (auto simp: field_absent z_optional_def)
  ultimately show ?thesis
    using e by (auto simp: tags_of_def)
qed

theorem blog_schema_absent_fields_witness:
  "blog_schema example_new_Date example_reference z_string []
      (RObject [(''title'', RString ''Notes''), (''description'', RString ''Notes''),
                (''pubDate'', RDate 1756684800000), (''category'', RString ''tech'')])
     = Inr \<lparr>title = ''Notes'', description = ''Notes'', pubDate = 1756684800000,
            updatedDate = None, isDraft = False, heroImage = None,
            category = \<lparr>collection = ''category'', ref_id = ''tech''\<rparr>, tags = None\<rparr>
   \<and> map_of [(''title'', RString ''Notes''), (''description'', RString ''Notes''),
              (''pubDate'', RDate 1756684800000), (''category'', RString ''tech'')] ''isDraft'' = None
   \<and> map_of [(''title'', RString ''Notes''), (''description'', RString ''Notes''),
              (''pubDate'', RDate 1756684800000), (''category'', RString ''tech'')] ''tags'' = None
   \<and> tags_of \<lparr>blog_id = ''notes'',
               blog_data = \<lparr>title = ''Notes'', description = ''Notes'', pubDate = 1756684800000,
                 updatedDate = None, isDraft = False, heroImage = None,
                 category = \<lparr>collection = ''category'', ref_id = ''tech''\<rparr>, tags = None\<rparr>\<rparr> = []"
proof -
  let ?props = "[(''title'', RString ''Notes''), (''description'', RString ''Notes''),
                 (''pubDate'', RDate 1756684800000), (''category'', RString ''tech'')]"
  let ?e = "\<lparr>title = ''Notes'', description = ''Notes'', pubDate = 1756684800000,
            updatedDate = None, isDraft = False, heroImage = None,
            category = \<lparr>collection = ''category'', ref_id = ''tech''\<rparr>, tags = None\<rparr>"
  have h: "blog_schema example_new_Date example_reference z_string [] (RObject ?props) = Inr ?e"
    by (simp add: blog_schema_def field_def z_string_def z_coerce_date_def
          z_optional_def z_default_def z_boolean_def example_new_Date_def example_reference_def)
  have a: "map_of ?props ''isDraft'' = None" "map_of ?props ''tags'' = None"
    by simp_all
  from blog_schema_absent_fields [OF h, of "''notes''"] a
  have "tags_of \<lparr>blog_id = ''notes'', blog_data = ?e\<rparr> = []" by blast
  with h a show ?thesis by blast
qed

text \<open>The validated entity of a record without \<open>tags\<close> holds no empty list.\<close>

theorem blog_schema_absent_tags_undefined:
  "blog_schema example_new_Date example_reference z_string [] frontmatter_titled =
     Inr \<lparr>title = ''Notes'', description = ''Notes'', pubDate = 1756684800000,
          updatedDate = None, isDraft = False, heroImage = None,
          category = \<lparr>collection = ''category'', ref_id = ''tech''\<rparr>, tags = None\<rparr>
   \<and> tags \<lparr>title = ''Notes'', description = ''Notes'', pubDate = 1756684800000,
            updatedDate = None, isDraft = False, heroImage = None,
            category = \<lparr>collection = ''category'', ref_id = ''tech''\<rparr>, tags = None\<rparr>
        \<noteq> Some []"
  by (simp add: blog_schema_def frontmatter_titled_def field_def z_string_def z_coerce_date_def
        z_optional_def z_default_def z_boolean_def example_new_Date_def example_reference_def)

end
